theory Spec2Isabelle
  imports Complex_Main
begin

section \<open>TextProcessor of scripts/ml\_functions.py\<close>

text \<open>
  A Python \<open>str\<close> is modelled as a \<open>string\<close>: each \<open>char\<close> stands for one code
  point below 256, so \<open>length\<close> is Python's \<open>len\<close>. Exceptions are values of the
  type \<open>error\<close>; a method that may raise returns \<open>error + 'a\<close>, with \<open>Inl\<close> for
  the exception. Every method of the class wraps its body in
  \<^verbatim>\<open>try: ... except Exception as e: logger.error(...); raise\<close>,
  which logs and raises the same exception again: in the model the \<open>Inl\<close> value is
  passed on unchanged. Logging is not modelled.
\<close>

datatype error =
    FileNotFoundError
  | IsADirectoryError
  | NotADirectoryError
  | FileExistsError
  | ZeroDivisionError
  | PatternError

subsection \<open>Text statistics: \<open>analyze_text\<close>\<close>

text \<open>
  \<open>str.split()\<close> without arguments splits on runs of whitespace and drops empty
  strings. The whitespace code points below 256 are 9 to 13, 28 to 32, 133 and 160.
\<close>

definition py_isspace :: "char \<Rightarrow> bool" where
  "py_isspace c =
     (let n = (of_char c :: nat)
      in (9 \<le> n \<and> n \<le> 13) \<or> (28 \<le> n \<and> n \<le> 32) \<or> n = 133 \<or> n = 160)"

function py_split :: "string \<Rightarrow> string list" where
  "py_split s =
     (case dropWhile py_isspace s of
        [] \<Rightarrow> []
      | c # cs \<Rightarrow> (c # takeWhile (Not \<circ> py_isspace) cs)
                  # py_split (dropWhile (Not \<circ> py_isspace) cs))"
  by pat_completeness auto
termination
proof (relation "measure length")
  show "wf (measure length)" by simp
next
  fix s :: string and c cs
  assume h: "dropWhile py_isspace s = c # cs"
  have "length (dropWhile (Not \<circ> py_isspace) cs) \<le> length cs"
    by (rule length_dropWhile_le)
  moreover have "length (c # cs) \<le> length s"
    using length_dropWhile_le [of py_isspace s] h by simp
  ultimately show "(dropWhile (Not \<circ> py_isspace) cs, s) \<in> measure length"
    by simp
qed

text \<open>
  \<^verbatim>\<open>re.split(r'[.!?]+', text)\<close>: the leftmost match of the pattern starts at the
  first delimiter and, \<open>+\<close> being greedy, takes the whole run of delimiters. The text
  before the match is a fragment; the search goes on after the run; the text after the
  last match is the last fragment.
\<close>

definition is_delim :: "char \<Rightarrow> bool" where
  "is_delim c = (c = CHR ''.'' \<or> c = CHR ''!'' \<or> c = CHR ''?'')"

function re_split_delims :: "string \<Rightarrow> string list" where
  "re_split_delims s =
     (case dropWhile (Not \<circ> is_delim) s of
        [] \<Rightarrow> [s]
      | d # ds \<Rightarrow> takeWhile (Not \<circ> is_delim) s
                  # re_split_delims (dropWhile is_delim ds))"
  by pat_completeness auto
termination
proof (relation "measure length")
  show "wf (measure length)" by simp
next
  fix s :: string and d ds
  assume h: "dropWhile (Not \<circ> is_delim) s = d # ds"
  have "length (dropWhile is_delim ds) \<le> length ds"
    by (rule length_dropWhile_le)
  moreover have "length (d # ds) \<le> length s"
    using length_dropWhile_le [of "Not \<circ> is_delim" s] h by simp
  ultimately show "(dropWhile is_delim ds, s) \<in> measure length"
    by simp
qed

text \<open>
  \<open>Counter(words)\<close> is a dict, which keeps its keys in the order of their first
  insertion; counting a word again updates the entry in place. An association list in
  insertion order models it.
\<close>

fun counter_add :: "'a \<Rightarrow> ('a \<times> nat) list \<Rightarrow> ('a \<times> nat) list" where
  "counter_add w [] = [(w, 1)]"
| "counter_add w ((k, c) # kvs) =
     (if k = w then (k, c + 1) # kvs else (k, c) # counter_add w kvs)"

definition Counter :: "'a list \<Rightarrow> ('a \<times> nat) list" where
  "Counter ws = foldl (\<lambda>m w. counter_add w m) [] ws"

text \<open>
  \<open>most_common(n)\<close> is \<^verbatim>\<open>heapq.nlargest(n, self.items(), key=itemgetter(1))\<close>, the
  same as \<^verbatim>\<open>sorted(self.items(), key=itemgetter(1), reverse=True)[:n]\<close>. Python's sort
  is stable, also with \<open>reverse=True\<close>: entries with equal counts keep the order of the
  dict. \<open>sort_key\<close> is a stable sort; the key is the negated count.
\<close>

definition most_common :: "nat \<Rightarrow> ('a \<times> nat) list \<Rightarrow> ('a \<times> nat) list" where
  "most_common n items = take n (sort_key (\<lambda>(w, c). - int c) items)"

text \<open>
  \<open>a / b\<close> on two ints raises \<open>ZeroDivisionError\<close> when \<open>b\<close> is 0 and otherwise
  returns the float nearest to the quotient; the model keeps the exact quotient.
\<close>

definition py_truediv :: "nat \<Rightarrow> nat \<Rightarrow> error + rat" where
  "py_truediv a b = (if b = 0 then Inl ZeroDivisionError else Inr (of_nat a / of_nat b))"

record analysis =
  word_count :: nat
  character_count :: nat
  sentence_count :: nat
  average_word_length :: rat
  most_common_words :: "(string \<times> nat) list"

definition analyze_text :: "string \<Rightarrow> error + analysis" where
  "analyze_text text =
     (let words = py_split text;
          sentences = re_split_delims text
      in case (if words \<noteq> []
               then py_truediv (sum_list (map length words)) (length words)
               else Inr 0) of
           Inl e \<Rightarrow> Inl e
         | Inr avg \<Rightarrow>
             Inr \<lparr>word_count = length words,
                  character_count = length text,
                  sentence_count = length sentences,
                  average_word_length = avg,
                  most_common_words = most_common 5 (Counter words)\<rparr>)"

subsection \<open>The file system\<close>

text \<open>
  A file system maps a path to the node it names: a regular file with its text, or a
  directory. A path is looked up as it is written: \<open>.\<close> and \<open>..\<close>, repeated slashes,
  links and permissions are outside the model, and the text of a file is the text that
  decoding its bytes as UTF-8 gives. The methods of the class read and change the file
  system: they take the state and return the new one.
\<close>

datatype node = File string | Dir

type_synonym filesystem = "string \<rightharpoonup> node"

definition slash :: char where
  "slash = CHR ''/''"

definition nl :: char where
  "nl = CHR 0x0A"

definition cr :: char where
  "cr = CHR 0x0D"

text \<open>
  \<open>os.path.join(a, b)\<close> of posixpath: an absolute \<open>b\<close> replaces \<open>a\<close>; otherwise \<open>b\<close>
  is appended, after a slash unless \<open>a\<close> is empty or ends in one.
\<close>

definition path_join :: "string \<Rightarrow> string \<Rightarrow> string" where
  "path_join a b =
     (if take 1 b = [slash] then b
      else if a = [] \<or> last a = slash then a @ b
      else a @ [slash] @ b)"

definition rstrip_slashes :: "string \<Rightarrow> string" where
  "rstrip_slashes p = rev (dropWhile (\<lambda>c. c = slash) (rev p))"

text \<open>
  \<open>os.path.split(p)\<close>: the tail is what follows the last slash, the head what stands
  before it, without its trailing slashes unless it consists of slashes only.
\<close>

definition path_split :: "string \<Rightarrow> string \<times> string" where
  "path_split p =
     (let tail = rev (takeWhile (\<lambda>c. c \<noteq> slash) (rev p));
          head = rev (dropWhile (\<lambda>c. c \<noteq> slash) (rev p))
      in (if head \<noteq> [] \<and> \<not> list_all (\<lambda>c. c = slash) head then rstrip_slashes head else head,
          tail))"

text \<open>
  \<open>os.path.splitext(p)\<close>: the extension starts at the last dot of the last path
  component, provided some character of the component before that dot is not a dot;
  otherwise the extension is empty.
\<close>

definition splitext :: "string \<Rightarrow> string \<times> string" where
  "splitext p =
     (let base = rev (takeWhile (\<lambda>c. c \<noteq> slash) (rev p));
          stem = rev (drop 1 (dropWhile (\<lambda>c. c \<noteq> CHR ''.'') (rev base)));
          ext = drop (length stem) base
      in if CHR ''.'' \<in> set base \<and> \<not> list_all (\<lambda>c. c = CHR ''.'') stem
         then (take (length p - length ext) p, ext)
         else (p, []))"

text \<open>
  \<open>open(path, 'r', encoding='utf-8')\<close> and \<open>file.read()\<close>: a missing path raises
  \<open>FileNotFoundError\<close>, a directory \<open>IsADirectoryError\<close>. Reading in text mode turns
  the line ends CR LF and CR into LF.
\<close>

fun universal_newlines :: "string \<Rightarrow> string" where
  "universal_newlines [] = []"
| "universal_newlines [c] = (if c = cr then [nl] else [c])"
| "universal_newlines (c # d # cs) =
     (if c = cr \<and> d = nl then nl # universal_newlines cs
      else if c = cr then nl # universal_newlines (d # cs)
      else c # universal_newlines (d # cs))"

definition open_read :: "filesystem \<Rightarrow> string \<Rightarrow> error + string" where
  "open_read fs path =
     (case fs path of
        None \<Rightarrow> Inl FileNotFoundError
      | Some Dir \<Rightarrow> Inl IsADirectoryError
      | Some (File content) \<Rightarrow> Inr (universal_newlines content))"

text \<open>
  \<open>open(path, 'w', encoding='utf-8')\<close> and \<open>file.write(content)\<close>: the directory that
  is to hold the file must exist, and \<open>open\<close> creates none; the file is created, or
  truncated when it exists, and holds \<open>content\<close> afterwards. A path without a slash lies
  in the current directory, which exists, as the root does.
\<close>

definition parent_node :: "filesystem \<Rightarrow> string \<Rightarrow> node option" where
  "parent_node fs path =
     (let d = fst (path_split path)
      in if list_all (\<lambda>c. c = slash) d then Some Dir else fs d)"

definition open_write :: "filesystem \<Rightarrow> string \<Rightarrow> string \<Rightarrow> error + filesystem" where
  "open_write fs path content =
     (case fs path of
        Some Dir \<Rightarrow> Inl IsADirectoryError
      | _ \<Rightarrow>
          (case parent_node fs path of
             None \<Rightarrow> Inl FileNotFoundError
           | Some (File _) \<Rightarrow> Inl NotADirectoryError
           | Some Dir \<Rightarrow> Inr (fs(path \<mapsto> File content))))"

text \<open>
  \<open>os.makedirs(name, exist_ok=True)\<close> makes the directory \<open>name\<close> and every directory
  on the way to it that is missing; directories that exist are left as they are; a
  regular file in the way is an error. The walk goes through \<open>name\<close> from the left and
  makes the directory named by the prefix before each slash, then \<open>name\<close> itself.
\<close>

definition mkdir_exist_ok :: "bool \<Rightarrow> string \<Rightarrow> filesystem \<Rightarrow> error + filesystem" where
  "mkdir_exist_ok leaf d fs =
     (case fs d of
        None \<Rightarrow> Inr (fs(d \<mapsto> Dir))
      | Some Dir \<Rightarrow> Inr fs
      | Some (File _) \<Rightarrow> Inl (if leaf then FileExistsError else NotADirectoryError))"

fun makedirs_walk :: "string \<Rightarrow> string \<Rightarrow> filesystem \<Rightarrow> error + filesystem" where
  "makedirs_walk pre [] fs =
     (if pre = [] then Inl FileNotFoundError
      else if list_all (\<lambda>c. c = slash) pre then Inr fs
      else mkdir_exist_ok True (rstrip_slashes pre) fs)"
| "makedirs_walk pre (c # cs) fs =
     (if c = slash \<and> pre \<noteq> [] \<and> last pre \<noteq> slash
      then (case mkdir_exist_ok False pre fs of
              Inl e \<Rightarrow> Inl e
            | Inr fs' \<Rightarrow> makedirs_walk (pre @ [c]) cs fs')
      else makedirs_walk (pre @ [c]) cs fs)"

definition makedirs :: "string \<Rightarrow> filesystem \<Rightarrow> error + filesystem" where
  "makedirs name fs = makedirs_walk [] name fs"

subsection \<open>The class and its file methods\<close>

record TextProcessor =
  input_dir :: string
  output_dir :: string

text \<open>\<open>__init__\<close> stores the two directories and makes both.\<close>

definition TextProcessor_init ::
  "string \<Rightarrow> string \<Rightarrow> filesystem \<Rightarrow> error + (TextProcessor \<times> filesystem)" where
  "TextProcessor_init idir odir fs =
     (case makedirs idir fs of
        Inl e \<Rightarrow> Inl e
      | Inr fs1 \<Rightarrow>
          (case makedirs odir fs1 of
             Inl e \<Rightarrow> Inl e
           | Inr fs2 \<Rightarrow> Inr (\<lparr>input_dir = idir, output_dir = odir\<rparr>, fs2)))"

text \<open>\<open>read_text_file\<close> reads below \<open>input_dir\<close>; \<open>write_text_file\<close> writes below
  \<open>output_dir\<close>.\<close>

definition read_text_file :: "TextProcessor \<Rightarrow> filesystem \<Rightarrow> string \<Rightarrow> error + string" where
  "read_text_file self fs filename = open_read fs (path_join (input_dir self) filename)"

definition write_text_file ::
  "TextProcessor \<Rightarrow> filesystem \<Rightarrow> string \<Rightarrow> string \<Rightarrow> error + filesystem" where
  "write_text_file self fs filename content =
     open_write fs (path_join (output_dir self) filename) content"

text \<open>
  \<open>merge_text_files\<close>: the loop reads each file in turn and appends its section, the
  first failing read ends the method with its error; then the sections, joined by
  a line feed, are written.
\<close>

fun str_join :: "string \<Rightarrow> string list \<Rightarrow> string" where
  "str_join sep [] = []"
| "str_join sep [x] = x"
| "str_join sep (x # y # ys) = x @ sep @ str_join sep (y # ys)"

fun read_sections :: "TextProcessor \<Rightarrow> filesystem \<Rightarrow> string list \<Rightarrow> error + string list" where
  "read_sections self fs [] = Inr []"
| "read_sections self fs (filename # rest) =
     (case read_text_file self fs filename of
        Inl e \<Rightarrow> Inl e
      | Inr content \<Rightarrow>
          (case read_sections self fs rest of
             Inl e \<Rightarrow> Inl e
           | Inr merged_content \<Rightarrow>
               Inr ((''--- '' @ filename @ '' ---'' @ [nl] @ content @ [nl]) # merged_content)))"

definition merge_text_files ::
  "TextProcessor \<Rightarrow> filesystem \<Rightarrow> string list \<Rightarrow> string \<Rightarrow> error + filesystem" where
  "merge_text_files self fs file_list output_filename =
     (case read_sections self fs file_list of
        Inl e \<Rightarrow> Inl e
      | Inr merged_content \<Rightarrow>
          write_text_file self fs output_filename (str_join [nl] merged_content))"

text \<open>
  \<open>create_backup\<close>: the time of the call is a parameter. \<open>strftime("%Y%m%d_%H%M%S")\<close>
  writes the year with four digits and the other fields with two, padded with zeros.
\<close>

record datetime =
  year :: nat
  month :: nat
  day :: nat
  hour :: nat
  minute :: nat
  second :: nat

fun zero_padded :: "nat \<Rightarrow> nat \<Rightarrow> string" where
  "zero_padded 0 n = []"
| "zero_padded (Suc k) n = zero_padded k (n div 10) @ [char_of (48 + n mod 10)]"

definition strftime :: "datetime \<Rightarrow> string" where
  "strftime t =
     zero_padded 4 (year t) @ zero_padded 2 (month t) @ zero_padded 2 (day t) @ ''_''
     @ zero_padded 2 (hour t) @ zero_padded 2 (minute t) @ zero_padded 2 (second t)"

definition create_backup ::
  "TextProcessor \<Rightarrow> datetime \<Rightarrow> filesystem \<Rightarrow> string \<Rightarrow> error + (string \<times> filesystem)" where
  "create_backup self now fs filename =
     (case read_text_file self fs filename of
        Inl e \<Rightarrow> Inl e
      | Inr content \<Rightarrow>
          (let timestamp = strftime now;
               backup_filename = fst (splitext filename) @ ''_'' @ timestamp @ ''.bak''
           in case write_text_file self fs backup_filename content of
                Inl e \<Rightarrow> Inl e
              | Inr fs' \<Rightarrow> Inr (backup_filename, fs')))"

subsection \<open>Regular expressions: \<open>search_text\<close>\<close>

text \<open>
  \<open>re.findall(pattern, text)\<close> compiles the pattern and scans the text. The model
  covers a fragment of the syntax of Python's \<open>re\<close>: literal characters, a backslash
  before a character that is neither a letter nor a digit, the dot, character sets
  \<open>[...]\<close> and \<open>[^...]\<close> of single characters, capturing groups, alternation, and the
  greedy repetitions \<open>*\<close>, \<open>+\<close> and \<open>?\<close>. Compiling has three outcomes: a regular
  expression with its number of groups, \<open>Invalid\<close> for a pattern that \<open>re\<close> rejects with
  \<open>re.error\<close>, and \<open>Unsupported\<close> for a pattern outside the fragment (anchors, counted
  and lazy repetition, ranges, classes such as a backslash before a letter, group
  extensions, a repetition of an expression that matches the empty string), about which
  the model says nothing.
\<close>

datatype regex =
    Lit char
  | AnyChar
  | CharSet bool "char list"
  | Eps
  | Cat regex regex
  | Alt regex regex
  | Star regex
  | Group nat regex

datatype 'a parse = Parsed 'a | Invalid | Unsupported

text \<open>
  The parser reads the pattern from the left. A frame holds the number of the group
  being read (0 at the top), its finished alternatives and the items of the current
  alternative, both newest first. The state is the current frame, the frames of the
  enclosing groups, the number of groups opened so far, and a mode.
\<close>

type_synonym frame = "nat \<times> regex list \<times> regex list"

datatype pmode =
    Normal
  | Quantified
  | GroupOpen
  | Escape
  | SetFirst bool
  | SetRest bool "char list"
  | SetEscape bool "char list"

type_synonym pstate = "frame \<times> frame list \<times> nat \<times> pmode"

definition backslash :: char where
  "backslash = CHR 0x5C"

definition is_ascii_alnum :: "char \<Rightarrow> bool" where
  "is_ascii_alnum c =
     (let n = (of_char c :: nat)
      in (48 \<le> n \<and> n \<le> 57) \<or> (65 \<le> n \<and> n \<le> 90) \<or> (97 \<le> n \<and> n \<le> 122))"

fun nullable :: "regex \<Rightarrow> bool" where
  "nullable (Lit c) = False"
| "nullable AnyChar = False"
| "nullable (CharSet neg cs) = False"
| "nullable Eps = True"
| "nullable (Cat r1 r2) = (nullable r1 \<and> nullable r2)"
| "nullable (Alt r1 r2) = (nullable r1 \<or> nullable r2)"
| "nullable (Star r) = True"
| "nullable (Group n r) = nullable r"

definition seq_regex :: "regex list \<Rightarrow> regex" where
  "seq_regex items = foldl (\<lambda>acc x. Cat x acc) Eps items"

fun frame_regex :: "frame \<Rightarrow> regex" where
  "frame_regex (n, alts, items) = foldl (\<lambda>acc a. Alt a acc) (seq_regex items) alts"

fun push_item :: "regex \<Rightarrow> pstate \<Rightarrow> pstate parse" where
  "push_item r ((n, alts, items), outer, ng, m) = Parsed ((n, alts, r # items), outer, ng, Normal)"

text \<open>
  A repetition applies to the last item; with no item before it the pattern is invalid
  (nothing to repeat).
\<close>

fun quantify :: "(regex \<Rightarrow> regex) \<Rightarrow> bool \<Rightarrow> pstate \<Rightarrow> pstate parse" where
  "quantify q strict ((n, alts, []), outer, ng, m) = Invalid"
| "quantify q strict ((n, alts, x # items), outer, ng, m) =
     (if strict \<and> nullable x then Unsupported
      else Parsed ((n, alts, q x # items), outer, ng, Quantified))"

fun set_member :: "bool \<Rightarrow> char list \<Rightarrow> char \<Rightarrow> pstate \<Rightarrow> pstate parse" where
  "set_member neg ms c (cur, outer, ng, m) =
     (if c = CHR '']'' then push_item (CharSet neg (rev ms)) (cur, outer, ng, m)
      else if c = backslash then Parsed (cur, outer, ng, SetEscape neg ms)
      else if c = CHR ''-'' \<or> c = CHR ''['' then Unsupported
      else Parsed (cur, outer, ng, SetRest neg (c # ms)))"

text \<open>
  A closing parenthesis with no group open is invalid (unbalanced parenthesis). \<open>r+\<close>
  is \<open>r\<close> followed by \<open>r*\<close>, and \<open>r?\<close> is \<open>r\<close> or the empty string, in this order.
\<close>

fun normal_step :: "pstate \<Rightarrow> char \<Rightarrow> pstate parse" where
  "normal_step ((n, alts, items), outer, ng, m) c =
     (if c = backslash then Parsed ((n, alts, items), outer, ng, Escape)
      else if c = CHR ''['' then Parsed ((n, alts, items), outer, ng, SetFirst False)
      else if c = CHR ''('' then
        Parsed ((Suc ng, [], []), (n, alts, items) # outer, Suc ng, GroupOpen)
      else if c = CHR '')'' then
        (case outer of
           [] \<Rightarrow> Invalid
         | (n', alts', items') # outer' \<Rightarrow>
             Parsed ((n', alts', Group n (frame_regex (n, alts, items)) # items'),
                     outer', ng, Normal))
      else if c = CHR ''|'' then Parsed ((n, seq_regex items # alts, []), outer, ng, Normal)
      else if c = CHR ''.'' then push_item AnyChar ((n, alts, items), outer, ng, m)
      else if c = CHR ''*'' then quantify Star True ((n, alts, items), outer, ng, m)
      else if c = CHR ''+'' then
        quantify (\<lambda>x. Cat x (Star x)) True ((n, alts, items), outer, ng, m)
      else if c = CHR ''?'' then
        quantify (\<lambda>x. Alt x Eps) False ((n, alts, items), outer, ng, m)
      else if c = CHR ''{'' \<or> c = CHR ''^'' \<or> c = CHR ''$'' then Unsupported
      else push_item (Lit c) ((n, alts, items), outer, ng, m))"

fun parse_step :: "pstate \<Rightarrow> char \<Rightarrow> pstate parse" where
  "parse_step (cur, outer, ng, Normal) c = normal_step (cur, outer, ng, Normal) c"
| "parse_step (cur, outer, ng, Quantified) c =
     (if c = CHR ''*'' \<or> c = CHR ''+'' \<or> c = CHR ''?'' then Unsupported
      else normal_step (cur, outer, ng, Normal) c)"
| "parse_step (cur, outer, ng, GroupOpen) c =
     (if c = CHR ''?'' then Unsupported else normal_step (cur, outer, ng, Normal) c)"
| "parse_step (cur, outer, ng, Escape) c =
     (if is_ascii_alnum c then Unsupported else push_item (Lit c) (cur, outer, ng, Normal))"
| "parse_step (cur, outer, ng, SetFirst neg) c =
     (if c = CHR ''^'' \<and> \<not> neg then Parsed (cur, outer, ng, SetFirst True)
      else if c = CHR '']'' then Unsupported
      else set_member neg [] c (cur, outer, ng, Normal))"
| "parse_step (cur, outer, ng, SetRest neg ms) c = set_member neg ms c (cur, outer, ng, Normal)"
| "parse_step (cur, outer, ng, SetEscape neg ms) c =
     (if is_ascii_alnum c then Unsupported else Parsed (cur, outer, ng, SetRest neg (c # ms)))"

fun parse_all :: "pstate \<Rightarrow> string \<Rightarrow> pstate parse" where
  "parse_all st [] = Parsed st"
| "parse_all st (c # cs) =
     (case parse_step st c of
        Parsed st' \<Rightarrow> parse_all st' cs
      | Invalid \<Rightarrow> Invalid
      | Unsupported \<Rightarrow> Unsupported)"

text \<open>
  At the end of the pattern an open group, an open set or a lone backslash is invalid.
\<close>

fun parse_end :: "pstate \<Rightarrow> (regex \<times> nat) parse" where
  "parse_end (cur, outer, ng, m) =
     (if outer \<noteq> [] then Invalid
      else case m of
             Normal \<Rightarrow> Parsed (frame_regex cur, ng)
           | Quantified \<Rightarrow> Parsed (frame_regex cur, ng)
           | _ \<Rightarrow> Invalid)"

definition re_compile :: "string \<Rightarrow> (regex \<times> nat) parse" where
  "re_compile pattern =
     (case parse_all ((0, [], []), [], 0, Normal) pattern of
        Parsed st \<Rightarrow> parse_end st
      | Invalid \<Rightarrow> Invalid
      | Unsupported \<Rightarrow> Unsupported)"

text \<open>
  Matching is by backtracking. \<open>rmatch r s g\<close> lists, in the order in which the engine
  tries them, the ways in which \<open>r\<close> matches a prefix of \<open>s\<close>: each with the rest of
  \<open>s\<close> and the groups captured, the newest first. An alternation tries its left side
  first, a repetition tries one more round before it stops, and a round that takes no
  character ends the repetition.
\<close>

type_synonym groups = "(nat \<times> string) list"

function rmatch :: "regex \<Rightarrow> string \<Rightarrow> groups \<Rightarrow> (string \<times> groups) list" where
  "rmatch (Lit c) s g = (case s of [] \<Rightarrow> [] | x # xs \<Rightarrow> if x = c then [(xs, g)] else [])"
| "rmatch AnyChar s g = (case s of [] \<Rightarrow> [] | x # xs \<Rightarrow> if x \<noteq> nl then [(xs, g)] else [])"
| "rmatch (CharSet neg cs) s g =
     (case s of [] \<Rightarrow> [] | x # xs \<Rightarrow> if (x \<in> set cs) \<noteq> neg then [(xs, g)] else [])"
| "rmatch Eps s g = [(s, g)]"
| "rmatch (Cat r1 r2) s g = concat (map (\<lambda>p. rmatch r2 (fst p) (snd p)) (rmatch r1 s g))"
| "rmatch (Alt r1 r2) s g = rmatch r1 s g @ rmatch r2 s g"
| "rmatch (Star r) s g =
     concat (map (\<lambda>p. if length (fst p) < length s then rmatch (Star r) (fst p) (snd p) else [])
                 (rmatch r s g))
     @ [(s, g)]"
| "rmatch (Group n r) s g =
     map (\<lambda>p. (fst p, (n, take (length s - length (fst p)) s) # snd p)) (rmatch r s g)"
  by pat_completeness auto
termination
  by (relation "inv_image (less_than <*lex*> less_than) (\<lambda>(r, s, g). (size r, length s))") auto

text \<open>
  The items of the list that \<open>findall\<close> returns: with no group in the pattern the
  matched text; with one group the text of that group; with more groups the tuple of
  the texts of all groups. A group that took no part in the match gives the empty string.
\<close>

datatype item = Str string | Tuple "string list"

definition group_text :: "groups \<Rightarrow> nat \<Rightarrow> string" where
  "group_text g n = (case map_of g n of None \<Rightarrow> [] | Some s \<Rightarrow> s)"

definition findall_item :: "nat \<Rightarrow> string \<Rightarrow> groups \<Rightarrow> item" where
  "findall_item ng whole g =
     (if ng = 0 then Str whole
      else if ng = 1 then Str (group_text g 1)
      else Tuple (map (group_text g) [1..<Suc ng]))"

text \<open>
  \<open>match_at\<close> is the first way to match at the start of \<open>s\<close>, as the length of the match
  and its groups; right after an empty match the engine must advance, and an empty
  match is then not accepted at that position. \<open>search\<close> tries the positions of \<open>s\<close>
  from the left and returns the number of characters skipped with the match.
\<close>

definition match_at :: "regex \<Rightarrow> string \<Rightarrow> bool \<Rightarrow> (nat \<times> groups) option" where
  "match_at r s must_advance =
     (case filter (\<lambda>p. length (fst p) < length s \<or> \<not> must_advance) (rmatch r s []) of
        [] \<Rightarrow> None
      | p # _ \<Rightarrow> Some (length s - length (fst p), snd p))"

fun search :: "regex \<Rightarrow> string \<Rightarrow> bool \<Rightarrow> (nat \<times> nat \<times> groups) option" where
  "search r [] must_advance =
     (case match_at r [] must_advance of None \<Rightarrow> None | Some (m, g) \<Rightarrow> Some (0, m, g))"
| "search r (c # cs) must_advance =
     (case match_at r (c # cs) must_advance of
        Some (m, g) \<Rightarrow> Some (0, m, g)
      | None \<Rightarrow> (case search r cs False of
                   None \<Rightarrow> None
                 | Some (k, m, g) \<Rightarrow> Some (Suc k, m, g)))"

text \<open>
  The loop of \<open>findall\<close>: search, record the item, go on after the match. The test
  before the recursive call never holds, since a match lies inside \<open>s\<close> and is not
  empty at the first position when the engine must advance (lemma \<open>search_bounds\<close>); it
  is there for the termination proof.
\<close>

function findall_from :: "regex \<Rightarrow> nat \<Rightarrow> string \<Rightarrow> bool \<Rightarrow> item list" where
  "findall_from r ng s must_advance =
     (case search r s must_advance of
        None \<Rightarrow> []
      | Some (k, m, g) \<Rightarrow>
          findall_item ng (take m (drop k s)) g
          # (if length s < k + m \<or> (k + m = 0 \<and> must_advance) then []
             else findall_from r ng (drop (k + m) s) (m = 0)))"
  by pat_completeness auto
termination
  by (relation "measure (\<lambda>(r, ng, s, adv). 2 * length s + (if adv then 0 else 1))") auto

text \<open>
  \<open>search_text\<close>: the result is \<open>None\<close> for a pattern outside the fragment.
\<close>

definition search_text :: "string \<Rightarrow> string \<Rightarrow> (error + item list) option" where
  "search_text text pattern =
     (case re_compile pattern of
        Invalid \<Rightarrow> Some (Inl PatternError)
      | Unsupported \<Rightarrow> None
      | Parsed (r, ng) \<Rightarrow> Some (Inr (findall_from r ng text False)))"

subsection \<open>Example states\<close>

text \<open>
  Two text files in the default input directory, the processor that
  \<open>TextProcessor()\<close> makes, and a time of call.
\<close>

definition example_files :: filesystem where
  "example_files =
     [''data'' \<mapsto> Dir, ''data/input'' \<mapsto> Dir,
      ''data/input/a.txt'' \<mapsto> File ''alpha'', ''data/input/b.txt'' \<mapsto> File ''beta'']"

definition default_processor :: TextProcessor where
  "default_processor = \<lparr>input_dir = ''data/input'', output_dir = ''data/output''\<rparr>"

definition example_now :: datetime where
  "example_now = \<lparr>year = 2024, month = 1, day = 2, hour = 3, minute = 4, second = 5\<rparr>"

subsection \<open>The wording of the specification, for comparison\<close>

text \<open>
  Splitting a text on runs of delimiters, as the specification words it: a text with no
  delimiter is its own single fragment; otherwise the text is a fragment without
  delimiter, then a maximal non-empty run of delimiters, then a rest that is split in
  the same way.
\<close>

inductive splits_on :: "string \<Rightarrow> string list \<Rightarrow> bool" where
  last_fragment: "\<forall>c \<in> set s. \<not> is_delim c \<Longrightarrow> splits_on s [s]"
| fragment:
    "\<forall>c \<in> set f. \<not> is_delim c \<Longrightarrow>
     run \<noteq> [] \<Longrightarrow> \<forall>c \<in> set run. is_delim c \<Longrightarrow>
     (rest = [] \<or> \<not> is_delim (hd rest)) \<Longrightarrow>
     splits_on rest fs \<Longrightarrow>
     splits_on (f @ run @ rest) (f # fs)"

code_pred splits_on .

text \<open>
  The ranking of the specification: a word ranks before another when it occurs more
  often, or equally often and first appears earlier in the word list.
\<close>

definition first_index :: "'a list \<Rightarrow> 'a \<Rightarrow> nat" where
  "first_index ws w = length (takeWhile (\<lambda>x. x \<noteq> w) ws)"

definition ranks_before :: "'a list \<Rightarrow> 'a \<Rightarrow> 'a \<Rightarrow> bool" where
  "ranks_before ws a b \<longleftrightarrow>
     count_list ws b < count_list ws a \<or>
     (count_list ws a = count_list ws b \<and> first_index ws a < first_index ws b)"

section \<open>Properties of the text statistics\<close>

lemma analyze_text_Inr:
  "analyze_text text =
     Inr \<lparr>word_count = length (py_split text),
          character_count = length text,
          sentence_count = length (re_split_delims text),
          average_word_length =
            (if py_split text = [] then 0
             else of_nat (sum_list (map length (py_split text)))
                  / of_nat (length (py_split text))),
          most_common_words = most_common 5 (Counter (py_split text))\<rparr>"
  by (simp add: analyze_text_def py_truediv_def Let_def)

text \<open>
  Claim C9. Called on a string, \<open>analyze_text\<close> returns a result and never an error:
  the only operation of its body that can raise, the division, is guarded by the test
  that the word list is not empty.
\<close>

theorem analyze_text_succeeds: "\<exists>r. analyze_text text = Inr r"
proof (cases "py_split text = []")
  case True
  then show ?thesis
    by (simp add: analyze_text_def Let_def)
next
  case False
  then have "length (py_split text) \<noteq> 0"
    by simp
  then obtain avg where
    "py_truediv (sum_list (map length (py_split text))) (length (py_split text)) = Inr avg"
    by (simp add: py_truediv_def)
  then show ?thesis
    using False by (simp add: analyze_text_def Let_def)
qed

subsection \<open>Sentence fragments\<close>

declare re_split_delims.simps [simp del] py_split.simps [simp del]

lemma re_split_delims_Nil:
  "dropWhile (Not \<circ> is_delim) s = [] \<Longrightarrow> re_split_delims s = [s]"
  by (subst re_split_delims.simps) (simp only: list.case)

lemma re_split_delims_Cons:
  "dropWhile (Not \<circ> is_delim) s = d # ds \<Longrightarrow>
   re_split_delims s = takeWhile (Not \<circ> is_delim) s # re_split_delims (dropWhile is_delim ds)"
  by (subst re_split_delims.simps) (simp only: list.case)

lemma dropWhile_run:
  assumes "\<forall>c \<in> set run. P c" "rest = [] \<or> \<not> P (hd rest)"
  shows "dropWhile P (run @ rest) = rest"
  using assms by (cases rest) (auto simp: dropWhile_append3 dropWhile_append)

lemma splits_on_unique: "splits_on s fs \<Longrightarrow> fs = re_split_delims s"
proof (induction rule: splits_on.induct)
  case (last_fragment s)
  then have "dropWhile (Not \<circ> is_delim) s = []" by simp
  then show ?case by (simp only: re_split_delims_Nil)
next
  case (fragment f run rest fs)
  obtain d ds where run: "run = d # ds" using fragment.hyps(2) by (cases run) auto
  have d: "is_delim d" using fragment.hyps(3) run by simp
  have 1: "dropWhile (Not \<circ> is_delim) (f @ run @ rest) = d # (ds @ rest)"
    using fragment.hyps(1) d run by (simp add: dropWhile_append)
  have 2: "takeWhile (Not \<circ> is_delim) (f @ run @ rest) = f"
    using fragment.hyps(1) d run by (simp add: takeWhile_append)
  have 3: "dropWhile is_delim (ds @ rest) = rest"
    using fragment.hyps(3,4) run by (intro dropWhile_run) auto
  show ?case
    by (simp only: re_split_delims_Cons [OF 1] 2 3 fragment.IH)
qed

lemma splits_on_re_split: "splits_on s (re_split_delims s)"
proof (induction s rule: re_split_delims.induct)
  case (1 s)
  show ?case
  proof (cases "dropWhile (Not \<circ> is_delim) s")
    case Nil
    then have "\<forall>c \<in> set s. \<not> is_delim c" by (simp add: dropWhile_eq_Nil_conv)
    then have "splits_on s [s]" by (rule splits_on.last_fragment)
    then show ?thesis by (simp only: re_split_delims_Nil [OF Nil])
  next
    case (Cons d ds)
    let ?f = "takeWhile (Not \<circ> is_delim) s"
    let ?run = "d # takeWhile is_delim ds"
    let ?rest = "dropWhile is_delim ds"
    have d: "is_delim d" using Cons hd_dropWhile [of "Not \<circ> is_delim" s] by simp
    have s: "s = ?f @ ?run @ ?rest"
      using takeWhile_dropWhile_id [of "Not \<circ> is_delim" s] Cons by simp
    have a: "\<forall>c \<in> set ?f. \<not> is_delim c" by (auto dest: set_takeWhileD)
    have b: "\<forall>c \<in> set ?run. is_delim c" using d by (auto dest: set_takeWhileD)
    have c: "?rest = [] \<or> \<not> is_delim (hd ?rest)" using hd_dropWhile [of is_delim ds] by blast
    have "splits_on (?f @ ?run @ ?rest) (?f # re_split_delims ?rest)"
      using a _ b c "1.IH" [OF Cons] by (rule splits_on.fragment) simp
    then show ?thesis using s by (simp only: re_split_delims_Cons [OF Cons])
  qed
qed

lemma re_split_nonempty: "re_split_delims s \<noteq> []"
  by (cases "dropWhile (Not \<circ> is_delim) s") (simp_all only: re_split_delims_Nil re_split_delims_Cons list.distinct not_False_eq_True)

lemma splits_on_append_run:
  assumes "splits_on s fs" "s = [] \<or> \<not> is_delim (last s)" "run \<noteq> []" "\<forall>c \<in> set run. is_delim c"
  shows "splits_on (s @ run) (fs @ [[]])"
  using assms
proof (induction rule: splits_on.induct)
  case (last_fragment s)
  have "splits_on [] [[]]" by (rule splits_on.last_fragment) simp
  with last_fragment have "splits_on (s @ run @ []) (s # [[]])"
    by (intro splits_on.fragment) auto
  then show ?case by simp
next
  case (fragment f run' rest fs)
  have rest: "rest \<noteq> []"
  proof
    assume "rest = []"
    with fragment.prems(1) fragment.hyps(2,3) show False by auto
  qed
  then have "\<not> is_delim (last rest)" using fragment.prems(1) fragment.hyps(2) by auto
  then have "splits_on (rest @ run) (fs @ [[]])"
    using fragment.IH fragment.prems by blast
  moreover have "rest @ run = [] \<or> \<not> is_delim (hd (rest @ run))"
    using rest fragment.hyps(4) by simp
  ultimately have "splits_on (f @ run' @ (rest @ run)) (f # (fs @ [[]]))"
    using fragment.hyps(1,2,3) by (intro splits_on.fragment) auto
  then show ?case by simp
qed

lemma re_split_delims_append_run:
  assumes "s = [] \<or> \<not> is_delim (last s)" "run \<noteq> []" "\<forall>c \<in> set run. is_delim c"
  shows "re_split_delims (s @ run) = re_split_delims s @ [[]]"
  by (rule splits_on_unique [OF splits_on_append_run [OF splits_on_re_split assms], symmetric])

text \<open>
  Claim C6. \<open>sentence_count\<close> is the length of the sequence obtained by splitting the
  text on maximal runs of one or more of the characters \<open>.\<close>, \<open>!\<close> and \<open>?\<close>: the text
  has exactly one such splitting \<open>fs\<close>, and \<open>analyze_text\<close> returns its length.
\<close>

theorem sentence_count_is_split_length:
  "\<exists>r fs. analyze_text text = Inr r \<and> splits_on text fs \<and> sentence_count r = length fs
      \<and> (\<forall>gs. splits_on text gs \<longrightarrow> gs = fs)"
proof -
  have "analyze_text text = Inr (projr (analyze_text text))"
    by (simp add: analyze_text_Inr)
  moreover have "sentence_count (projr (analyze_text text)) = length (re_split_delims text)"
    by (simp add: analyze_text_Inr)
  moreover have "\<forall>gs. splits_on text gs \<longrightarrow> gs = re_split_delims text"
    by (simp add: splits_on_unique)
  ultimately show ?thesis
    using splits_on_re_split [of "text"] by blast
qed

text \<open>
  The splitting of \<open>Hi. Yo?!\<close> has three fragments, the last one empty; the run \<open>?!\<close>
  is a single split point.
\<close>

theorem sentence_count_is_split_length_witness:
  "\<exists>r. analyze_text ''Hi. Yo?!'' = Inr r \<and> sentence_count r = 3
      \<and> splits_on ''Hi. Yo?!'' [''Hi'', '' Yo'', '''']"
proof -
  have a: "splits_on '''' ['''']" by (rule splits_on.last_fragment) simp
  have b: "splits_on ('' Yo'' @ ''?!'' @ '''') ['' Yo'', '''']"
    using a by (intro splits_on.fragment) (simp_all add: is_delim_def)
  have c: "splits_on (''Hi'' @ ''.'' @ '' Yo?!'') [''Hi'', '' Yo'', '''']"
    using b by (intro splits_on.fragment) (simp_all add: is_delim_def)
  from sentence_count_is_split_length [of "''Hi. Yo?!''"]
  obtain r fs where r: "analyze_text ''Hi. Yo?!'' = Inr r" "sentence_count r = length fs"
    and u: "\<forall>gs. splits_on ''Hi. Yo?!'' gs \<longrightarrow> gs = fs" by blast
  from u c have "fs = [''Hi'', '' Yo'', '''']" by simp
  with r c show ?thesis by simp
qed

lemma py_split_Nil: "py_split [] = []"
  by (subst py_split.simps) simp

lemma Counter_Nil: "Counter [] = []"
  by (simp add: Counter_def)

lemma most_common_Nil: "most_common n [] = []"
  by (simp add: most_common_def)

lemma trailing_run:
  assumes "s \<noteq> []" "is_delim (last s)"
  obtains body run where "s = body @ run" "run \<noteq> []" "\<forall>c \<in> set run. is_delim c"
    "body = [] \<or> \<not> is_delim (last body)"
proof
  let ?body = "rev (dropWhile is_delim (rev s))" and ?run = "rev (takeWhile is_delim (rev s))"
  show "s = ?body @ ?run"
    using takeWhile_dropWhile_id [of is_delim "rev s"]
    by (metis rev_append rev_rev_ident)
  show "?run \<noteq> []"
    using assms by (cases "rev s") (auto simp: last_rev)
  show "\<forall>c \<in> set ?run. is_delim c"
    by (auto dest: set_takeWhileD)
  show "?body = [] \<or> \<not> is_delim (last ?body)"
    using hd_dropWhile [of is_delim "rev s"] by (auto simp: last_rev)
qed

lemma re_split_delims_trailing:
  assumes "s \<noteq> []" "is_delim (last s)"
  shows "2 \<le> length (re_split_delims s)" and "last (re_split_delims s) = []"
proof -
  from assms obtain body run where s: "s = body @ run" and run: "run \<noteq> []" "\<forall>c \<in> set run. is_delim c"
    and body: "body = [] \<or> \<not> is_delim (last body)"
    by (rule trailing_run)
  have eq: "re_split_delims s = re_split_delims body @ [[]]"
    unfolding s using body run by (rule re_split_delims_append_run)
  have "1 \<le> length (re_split_delims body)"
    using re_split_nonempty [of body] by (cases "re_split_delims body") simp_all
  then show "2 \<le> length (re_split_delims s)" by (simp add: eq)
  show "last (re_split_delims s) = []" by (simp add: eq)
qed

text \<open>
  Claim C10. For every text \<open>sentence_count\<close> is at least 1. A text that ends in a
  delimiter has at least two fragments, the last of them empty; and it has one fragment
  more than the same text without its final run of delimiters: the empty fragment after
  the final run is counted, not dropped.
\<close>

theorem sentence_count_at_least_one:
  "\<exists>r. analyze_text text = Inr r \<and> 1 \<le> sentence_count r \<and>
     (text \<noteq> [] \<and> is_delim (last text) \<longrightarrow>
        2 \<le> sentence_count r \<and> last (re_split_delims text) = []) \<and>
     (\<forall>run. run \<noteq> [] \<and> (\<forall>c \<in> set run. is_delim c) \<and> (text = [] \<or> \<not> is_delim (last text)) \<longrightarrow>
        (\<exists>r'. analyze_text (text @ run) = Inr r' \<and>
              sentence_count r' = sentence_count r + 1 \<and>
              last (re_split_delims (text @ run)) = []))"
proof -
  have "1 \<le> length (re_split_delims text)"
    using re_split_nonempty [of "text"] by (cases "re_split_delims text") simp_all
  moreover have "2 \<le> length (re_split_delims text) \<and> last (re_split_delims text) = []"
    if "text \<noteq> []" "is_delim (last text)"
    using re_split_delims_trailing [OF that] by simp
  moreover have "length (re_split_delims (text @ run)) = length (re_split_delims text) + 1
      \<and> last (re_split_delims (text @ run)) = []"
    if "run \<noteq> []" "\<forall>c \<in> set run. is_delim c" "text = [] \<or> \<not> is_delim (last text)" for run
    using re_split_delims_append_run [OF that(3) that(1) that(2)] by simp
  ultimately show ?thesis
    by (simp add: analyze_text_Inr)
qed

text \<open>
  \<open>Hi\<close> has one fragment, \<open>Hi?!\<close> has two, the second one empty.
\<close>

theorem sentence_count_at_least_one_witness:
  "\<exists>r r'. analyze_text ''Hi'' = Inr r \<and> sentence_count r = 1 \<and>
      analyze_text ''Hi?!'' = Inr r' \<and> sentence_count r' = 2 \<and>
      last (re_split_delims ''Hi?!'') = []"
proof -
  have one: "re_split_delims ''Hi'' = [''Hi'']" by code_simp
  from sentence_count_at_least_one [of "''Hi''"]
  obtain r where r: "analyze_text ''Hi'' = Inr r"
    and step: "\<forall>run. run \<noteq> [] \<and> (\<forall>c \<in> set run. is_delim c) \<and> (''Hi'' = [] \<or> \<not> is_delim (last ''Hi'')) \<longrightarrow>
        (\<exists>r'. analyze_text (''Hi'' @ run) = Inr r' \<and>
              sentence_count r' = sentence_count r + 1 \<and>
              last (re_split_delims (''Hi'' @ run)) = [])"
    by blast
  have "''?!'' \<noteq> [] \<and> (\<forall>c \<in> set ''?!''. is_delim c) \<and> (''Hi'' = [] \<or> \<not> is_delim (last ''Hi''))"
    by (simp add: is_delim_def)
  with step obtain r' where r': "analyze_text (''Hi'' @ ''?!'') = Inr r'"
      "sentence_count r' = sentence_count r + 1" "last (re_split_delims (''Hi'' @ ''?!'')) = []"
    by blast
  have "sentence_count r = 1" using r by (auto simp add: analyze_text_Inr one)
  with r r' show ?thesis by simp
qed

text \<open>
  Claim C7. On the empty text \<open>analyze_text\<close> returns word count 0, character count
  0, average word length 0 and no common words. On every text it returns a result in
  which the average word length is 0 when there is no word, and otherwise the sum of the
  lengths of the words divided by the word count.
\<close>

theorem average_word_length_cases:
  "(\<exists>r. analyze_text [] = Inr r \<and> word_count r = 0 \<and> character_count r = 0 \<and>
        average_word_length r = 0 \<and> most_common_words r = []) \<and>
   (\<exists>r. analyze_text text = Inr r \<and>
        (word_count r = 0 \<longrightarrow> average_word_length r = 0) \<and>
        (word_count r \<noteq> 0 \<longrightarrow>
           average_word_length r =
             of_nat (sum_list (map length (py_split text))) / of_nat (word_count r)))"
  by (simp add: analyze_text_Inr py_split_Nil Counter_Nil most_common_Nil)

text \<open>
  The two words of \<open>ab  c\<close> have three characters together: the average is 3/2.
\<close>

theorem average_word_length_cases_witness:
  "\<exists>r. analyze_text ''ab  c'' = Inr r \<and> word_count r = 2 \<and> average_word_length r = 3 / 2"
proof -
  have w: "py_split ''ab  c'' = [''ab'', ''c'']" by code_simp
  from average_word_length_cases [of "''ab  c''"]
  obtain r where r: "analyze_text ''ab  c'' = Inr r"
    and a: "word_count r \<noteq> 0 \<longrightarrow>
           average_word_length r =
             of_nat (sum_list (map length (py_split ''ab  c''))) / of_nat (word_count r)"
    by blast
  have "word_count r = 2" using r by (auto simp add: analyze_text_Inr w)
  with a r show ?thesis by (auto simp add: w)
qed

subsection \<open>Word frequencies\<close>

lemma Counter_snoc: "Counter (ws @ [w]) = counter_add w (Counter ws)"
  by (simp add: Counter_def)

lemma keys_counter_add:
  "map fst (counter_add w m) = (if w \<in> fst ` set m then map fst m else map fst m @ [w])"
  by (induction w m rule: counter_add.induct) auto

lemma map_of_counter_add:
  "map_of (counter_add w m) =
     (map_of m)(w \<mapsto> (case map_of m w of None \<Rightarrow> 1 | Some c \<Rightarrow> c + 1))"
  by (induction w m rule: counter_add.induct) (auto simp: fun_eq_iff)

lemma keys_Counter: "set (map fst (Counter ws)) = set ws"
  by (induction ws rule: rev_induct) (auto simp: Counter_Nil Counter_snoc keys_counter_add)

lemma distinct_keys_Counter: "distinct (map fst (Counter ws))"
  by (induction ws rule: rev_induct) (auto simp: Counter_Nil Counter_snoc keys_counter_add)

lemma map_of_Counter:
  "map_of (Counter ws) w = (if w \<in> set ws then Some (count_list ws w) else None)"
  by (induction ws rule: rev_induct)
     (auto simp: Counter_Nil Counter_snoc map_of_counter_add count_list_append)

lemma Counter_count: "(w, c) \<in> set (Counter ws) \<Longrightarrow> w \<in> set ws \<and> c = count_list ws w"
  using map_of_Counter [of ws w] distinct_keys_Counter [of ws]
  by (auto split: if_splits)

lemma first_index_snoc_old: "a \<in> set ws \<Longrightarrow> first_index (ws @ [w]) a = first_index ws a"
  by (auto simp add: first_index_def takeWhile_append)

lemma first_index_less: "a \<in> set ws \<Longrightarrow> first_index ws a < length ws"
  unfolding first_index_def by (induction ws) auto

lemma first_index_snoc_new: "w \<notin> set ws \<Longrightarrow> first_index (ws @ [w]) w = length ws"
  by (simp add: first_index_def takeWhile_append)

lemma keys_Counter_order:
  "sorted_wrt (\<lambda>a b. first_index ws a < first_index ws b) (map fst (Counter ws))"
proof (induction ws rule: rev_induct)
  case Nil
  then show ?case by (simp add: Counter_Nil)
next
  case (snoc w ws)
  let ?ks = "map fst (Counter ws)"
  have old: "sorted_wrt (\<lambda>a b. first_index (ws @ [w]) a < first_index (ws @ [w]) b) ?ks"
    using snoc keys_Counter [of ws]
    by (auto simp: first_index_snoc_old intro: sorted_wrt_mono_rel [rotated])
  show ?case
  proof (cases "w \<in> set ws")
    case True
    then show ?thesis using old keys_Counter [of ws]
      by (simp add: Counter_snoc keys_counter_add)
  next
    case False
    then show ?thesis using old keys_Counter [of ws]
      by (auto simp: Counter_snoc keys_counter_add sorted_wrt_append
            first_index_snoc_old first_index_snoc_new first_index_less)
  qed
qed

lemma insort_key_lex:
  fixes f :: "'a \<Rightarrow> int" and pos :: "'a \<Rightarrow> nat"
  assumes "sorted_wrt (\<lambda>a b. f a < f b \<or> (f a = f b \<and> pos a < pos b)) ys"
    and "\<forall>y \<in> set ys. pos x < pos y"
  shows "sorted_wrt (\<lambda>a b. f a < f b \<or> (f a = f b \<and> pos a < pos b)) (insort_key f x ys)"
  using assms
proof (induction ys)
  case Nil
  then show ?case by simp
next
  case (Cons y ys)
  show ?case
  proof (cases "f x \<le> f y")
    case True
    have "f x < f z \<or> (f x = f z \<and> pos x < pos z)" if "z \<in> set (y # ys)" for z
    proof -
      have "f y \<le> f z" using Cons.prems(1) that by auto
      moreover have "pos x < pos z" using Cons.prems(2) that by blast
      ultimately show ?thesis using True by linarith
    qed
    then show ?thesis using True Cons.prems(1) by auto
  next
    case False
    then have "f y < f x" by simp
    moreover have "sorted_wrt (\<lambda>a b. f a < f b \<or> (f a = f b \<and> pos a < pos b)) (insort_key f x ys)"
      using Cons by simp
    ultimately show ?thesis using False Cons.prems(1) by (auto simp: set_insort_key)
  qed
qed

lemma sort_key_lex:
  fixes f :: "'a \<Rightarrow> int" and pos :: "'a \<Rightarrow> nat"
  assumes "sorted_wrt (\<lambda>a b. pos a < pos b) xs"
  shows "sorted_wrt (\<lambda>a b. f a < f b \<or> (f a = f b \<and> pos a < pos b)) (sort_key f xs)"
  using assms
proof (induction xs)
  case Nil
  then show ?case by simp
next
  case (Cons x xs)
  have "sorted_wrt (\<lambda>a b. f a < f b \<or> (f a = f b \<and> pos a < pos b)) (sort_key f xs)"
    using Cons by simp
  moreover have "\<forall>y \<in> set (sort_key f xs). pos x < pos y"
    using Cons.prems by simp
  ultimately show ?case
    using insort_key_lex [of f pos "sort_key f xs" x] by simp
qed

lemma sorted_Counter_ranked:
  "sorted_wrt (\<lambda>a b. ranks_before ws (fst a) (fst b))
     (sort_key (\<lambda>(w, c). - int c) (Counter ws))"
proof -
  let ?f = "\<lambda>(w, c). - int c" and ?pos = "\<lambda>p. first_index ws (fst p)"
  have "sorted_wrt (\<lambda>a b. ?pos a < ?pos b) (Counter ws)"
    using keys_Counter_order [of ws] by (simp add: sorted_wrt_map)
  then have "sorted_wrt (\<lambda>a b. ?f a < ?f b \<or> (?f a = ?f b \<and> ?pos a < ?pos b))
      (sort_key ?f (Counter ws))"
    by (rule sort_key_lex)
  moreover have "ranks_before ws (fst a) (fst b)"
    if "a \<in> set (sort_key ?f (Counter ws))" "b \<in> set (sort_key ?f (Counter ws))"
       "?f a < ?f b \<or> (?f a = ?f b \<and> ?pos a < ?pos b)" for a b
  proof -
    have "snd a = count_list ws (fst a)"
      using that(1) Counter_count [of "fst a" "snd a" ws] by simp
    moreover have "snd b = count_list ws (fst b)"
      using that(2) Counter_count [of "fst b" "snd b" ws] by simp
    ultimately show ?thesis
      using that(3) by (simp add: ranks_before_def case_prod_beta)
  qed
  ultimately show ?thesis
    by (rule sorted_wrt_mono_rel [rotated])
qed

lemma most_common_ranked:
  "sorted_wrt (ranks_before ws) (map fst (most_common n (Counter ws)))"
  using sorted_wrt_take [OF sorted_Counter_ranked [of ws], of n]
  by (simp add: most_common_def sorted_wrt_map)

lemma most_common_count:
  "(w, c) \<in> set (most_common n (Counter ws)) \<Longrightarrow> w \<in> set ws \<and> c = count_list ws w"
  using Counter_count [of w c ws] by (auto simp: most_common_def dest: in_set_takeD)

lemma most_common_length:
  "length (most_common n (Counter ws)) = min n (card (set ws))"
proof -
  have "length (Counter ws) = card (set ws)"
    using distinct_card [OF distinct_keys_Counter [of ws]] keys_Counter [of ws] by simp
  then show ?thesis by (simp add: most_common_def min.commute)
qed

lemma most_common_rest:
  assumes "w \<in> set ws" "w \<notin> fst ` set (most_common n (Counter ws))"
    and "m \<in> fst ` set (most_common n (Counter ws))"
  shows "ranks_before ws m w"
proof -
  let ?s = "sort_key (\<lambda>(w, c). - int c) (Counter ws)"
  have split: "?s = take n ?s @ drop n ?s" by simp
  obtain c where "(w, c) \<in> set (Counter ws)"
    using assms(1) keys_Counter [of ws] by force
  then have "(w, c) \<in> set (take n ?s) \<union> set (drop n ?s)"
    unfolding set_append [symmetric] append_take_drop_id by simp
  then have w: "(w, c) \<in> set (drop n ?s)"
    using assms(2) by (force simp: most_common_def)
  obtain cm where m: "(m, cm) \<in> set (take n ?s)"
    using assms(3) by (auto simp: most_common_def)
  have "sorted_wrt (\<lambda>a b. ranks_before ws (fst a) (fst b)) (take n ?s @ drop n ?s)"
    using sorted_Counter_ranked [of ws] by simp
  then have "ranks_before ws (fst (m, cm)) (fst (w, c))"
    unfolding sorted_wrt_append using m w by blast
  then show ?thesis by simp
qed

lemma most_common_descending:
  "sorted_wrt (\<lambda>a b. snd b \<le> snd a) (most_common n (Counter ws))"
proof -
  have "sorted_wrt (\<lambda>a b. ranks_before ws (fst a) (fst b)) (most_common n (Counter ws))"
    using most_common_ranked [of ws n] by (simp add: sorted_wrt_map)
  moreover have "snd b \<le> snd a"
    if "a \<in> set (most_common n (Counter ws))" "b \<in> set (most_common n (Counter ws))"
       "ranks_before ws (fst a) (fst b)" for a b
    using that most_common_count [of "fst a" "snd a" n ws] most_common_count [of "fst b" "snd b" n ws]
    by (auto simp: ranks_before_def)
  ultimately show ?thesis
    by (rule sorted_wrt_mono_rel [rotated])
qed

text \<open>
  Claim C1. With \<open>ws\<close> the whitespace-separated words of the text,
  \<open>most_common_words\<close> has as many entries as there are distinct words, at most 5; each
  entry is a word of \<open>ws\<close> with the number of its occurrences; the counts descend;
  the entries are in ranking order (more occurrences first, among equal counts the word
  that appears first), and every word left out ranks after every entry. On \<open>a a b\<close>
  the word count is 3 and the entries are \<open>(a, 2)\<close> and \<open>(b, 1)\<close>.
\<close>

theorem most_common_words_top5:
  "(\<exists>r. analyze_text text = Inr r \<and>
      length (most_common_words r) = min 5 (card (set (py_split text))) \<and>
      (\<forall>(w, c) \<in> set (most_common_words r).
          w \<in> set (py_split text) \<and> c = count_list (py_split text) w) \<and>
      sorted_wrt (\<lambda>a b. snd b \<le> snd a) (most_common_words r) \<and>
      sorted_wrt (ranks_before (py_split text)) (map fst (most_common_words r)) \<and>
      (\<forall>w \<in> set (py_split text). w \<notin> fst ` set (most_common_words r) \<longrightarrow>
          (\<forall>m \<in> fst ` set (most_common_words r). ranks_before (py_split text) m w))) \<and>
   (\<exists>r. analyze_text ''a a b'' = Inr r \<and> word_count r = 3 \<and>
      most_common_words r = [(''a'', 2), (''b'', 1)])"
proof -
  let ?ws = "py_split text"
  let ?mc = "most_common 5 (Counter ?ws)"
  have 1: "length ?mc = min 5 (card (set ?ws))"
    by (rule most_common_length)
  have 2: "\<forall>(w, c) \<in> set ?mc. w \<in> set ?ws \<and> c = count_list ?ws w"
    using most_common_count [of _ _ 5 ?ws] by blast
  have 3: "sorted_wrt (\<lambda>a b. snd b \<le> snd a) ?mc"
    by (rule most_common_descending)
  have 4: "sorted_wrt (ranks_before ?ws) (map fst ?mc)"
    by (rule most_common_ranked)
  have 5: "\<forall>w \<in> set ?ws. w \<notin> fst ` set ?mc \<longrightarrow> (\<forall>m \<in> fst ` set ?mc. ranks_before ?ws m w)"
    using most_common_rest [of _ ?ws 5] by blast
  have w: "py_split ''a a b'' = [''a'', ''a'', ''b'']" by code_simp
  have c: "most_common 5 (Counter [''a'', ''a'', ''b'']) = [(''a'', 2), (''b'', 1)]" by code_simp
  have 6: "\<exists>r. analyze_text ''a a b'' = Inr r \<and> word_count r = 3 \<and>
      most_common_words r = [(''a'', 2), (''b'', 1)]"
    by (simp add: analyze_text_Inr w c)
  have "\<exists>r. analyze_text text = Inr r \<and>
      length (most_common_words r) = min 5 (card (set ?ws)) \<and>
      (\<forall>(w, c) \<in> set (most_common_words r). w \<in> set ?ws \<and> c = count_list ?ws w) \<and>
      sorted_wrt (\<lambda>a b. snd b \<le> snd a) (most_common_words r) \<and>
      sorted_wrt (ranks_before ?ws) (map fst (most_common_words r)) \<and>
      (\<forall>w \<in> set ?ws. w \<notin> fst ` set (most_common_words r) \<longrightarrow>
          (\<forall>m \<in> fst ` set (most_common_words r). ranks_before ?ws m w))"
    using 1 2 3 4 5 by (simp add: analyze_text_Inr)
  then show ?thesis using 6 by blast
qed

text \<open>
  Seven distinct words, two of them twice: \<open>b\<close> appears before \<open>a\<close> and comes first;
  of the five words that occur once the first three are kept.
\<close>

theorem most_common_words_top5_witness:
  "\<exists>r. analyze_text ''b a c a b d e f g'' = Inr r \<and>
      most_common_words r = [(''b'', 2), (''a'', 2), (''c'', 1), (''d'', 1), (''e'', 1)] \<and>
      length (most_common_words r) = min 5 (card (set (py_split ''b a c a b d e f g''))) \<and>
      sorted_wrt (ranks_before (py_split ''b a c a b d e f g'')) (map fst (most_common_words r))"
proof -
  have w: "py_split ''b a c a b d e f g''
      = [''b'', ''a'', ''c'', ''a'', ''b'', ''d'', ''e'', ''f'', ''g'']" by code_simp
  have c: "most_common 5 (Counter [''b'', ''a'', ''c'', ''a'', ''b'', ''d'', ''e'', ''f'', ''g''])
      = [(''b'', 2), (''a'', 2), (''c'', 1), (''d'', 1), (''e'', 1)]" by code_simp
  from most_common_words_top5 [of "''b a c a b d e f g''"]
  obtain r where r: "analyze_text ''b a c a b d e f g'' = Inr r"
    and l: "length (most_common_words r) = min 5 (card (set (py_split ''b a c a b d e f g'')))"
    and s: "sorted_wrt (ranks_before (py_split ''b a c a b d e f g'')) (map fst (most_common_words r))"
    by blast
  have "most_common_words r = [(''b'', 2), (''a'', 2), (''c'', 1), (''d'', 1), (''e'', 1)]"
    using r by (auto simp add: analyze_text_Inr w c)
  with r l s show ?thesis by blast
qed

section \<open>Properties of the file methods\<close>

lemmas path_simps = path_join_def path_split_def rstrip_slashes_def slash_def parent_node_def
  cr_def nl_def

lemma makedirs_input: "makedirs ''data/input'' example_files = Inr example_files"
  by (simp add: makedirs_def mkdir_exist_ok_def example_files_def slash_def rstrip_slashes_def)

lemma makedirs_output:
  "makedirs ''data/output'' example_files = Inr (example_files(''data/output'' \<mapsto> Dir))"
  by (simp add: makedirs_def mkdir_exist_ok_def example_files_def slash_def rstrip_slashes_def)

lemma init_example:
  "TextProcessor_init ''data/input'' ''data/output'' example_files
     = Inr (default_processor, example_files(''data/output'' \<mapsto> Dir))"
  by (simp add: TextProcessor_init_def makedirs_input makedirs_output default_processor_def)

lemma read_a:
  "read_text_file default_processor (example_files(''data/output'' \<mapsto> Dir)) ''a.txt'' = Inr ''alpha''"
  by (simp add: read_text_file_def open_read_def default_processor_def example_files_def path_simps)

lemma read_b:
  "read_text_file default_processor (example_files(''data/output'' \<mapsto> Dir)) ''b.txt'' = Inr ''beta''"
  by (simp add: read_text_file_def open_read_def default_processor_def example_files_def path_simps)

lemma write_example:
  "write_text_file default_processor (example_files(''data/output'' \<mapsto> Dir)) ''m.txt'' c
     = Inr (example_files(''data/output'' \<mapsto> Dir, ''data/output/m.txt'' \<mapsto> File c))"
  by (simp add: write_text_file_def open_write_def default_processor_def example_files_def
        path_simps)

lemma merge_example:
  "merge_text_files default_processor (example_files(''data/output'' \<mapsto> Dir))
       [''a.txt'', ''b.txt''] ''m.txt''
     = Inr (example_files(''data/output'' \<mapsto> Dir,
              ''data/output/m.txt'' \<mapsto>
                File (''--- a.txt ---'' @ [nl] @ ''alpha'' @ [nl] @ [nl]
                      @ ''--- b.txt ---'' @ [nl] @ ''beta'' @ [nl])))"
  by (simp add: merge_text_files_def read_a read_b write_example)

lemma read_merged:
  "read_text_file default_processor
      (example_files(''data/output'' \<mapsto> Dir, ''data/output/m.txt'' \<mapsto> File c)) ''m.txt''
     = Inl FileNotFoundError"
  by (simp add: read_text_file_def open_read_def default_processor_def example_files_def path_simps)

lemma write_backup_example:
  "write_text_file default_processor (example_files(''data/output'' \<mapsto> Dir))
       ''a_20240102_030405.bak'' c
     = Inr (example_files(''data/output'' \<mapsto> Dir,
              ''data/output/a_20240102_030405.bak'' \<mapsto> File c))"
  by (simp add: write_text_file_def open_write_def default_processor_def example_files_def
        path_simps)

lemma backup_example:
  "create_backup default_processor example_now
       (example_files(''data/output'' \<mapsto> Dir)) ''a.txt''
     = Inr (''a_20240102_030405.bak'',
            example_files(''data/output'' \<mapsto> Dir,
              ''data/output/a_20240102_030405.bak'' \<mapsto> File ''alpha''))"
proof -
  have t: "strftime example_now = ''20240102_030405''" by code_simp
  have s: "fst (splitext ''a.txt'') = ''a''" by code_simp
  show ?thesis
    by (simp add: create_backup_def read_a t s write_backup_example Let_def)
qed

lemma read_backup:
  "read_text_file default_processor
      (example_files(''data/output'' \<mapsto> Dir,
              ''data/output/a_20240102_030405.bak'' \<mapsto> File c)) ''a_20240102_030405.bak''
     = Inl FileNotFoundError"
  by (simp add: read_text_file_def open_read_def default_processor_def example_files_def path_simps)










section \<open>Properties of the regular expressions\<close>

declare findall_from.simps [simp del] rmatch.simps [simp del]

lemma rmatch_length: "p \<in> set (rmatch r s g) \<Longrightarrow> length (fst p) \<le> length s"
proof (induction r s g arbitrary: p rule: rmatch.induct)
  case (1 c s g)
  then show ?case by (auto simp: rmatch.simps(1) split: list.splits if_splits)
next
  case (2 s g)
  then show ?case by (auto simp: rmatch.simps(2) split: list.splits if_splits)
next
  case (3 neg cs s g)
  then show ?case by (auto simp: rmatch.simps(3) split: list.splits if_splits)
next
  case (4 s g)
  then show ?case by (simp add: rmatch.simps(4))
next
  case (5 r1 r2 s g)
  then obtain q where q: "q \<in> set (rmatch r1 s g)" and p: "p \<in> set (rmatch r2 (fst q) (snd q))"
    by (auto simp: rmatch.simps(5))
  have "length (fst p) \<le> length (fst q)" using "5.IH"(2) [OF q p] .
  moreover have "length (fst q) \<le> length s" using "5.IH"(1) [OF q] .
  ultimately show ?case by simp
next
  case (6 r1 r2 s g)
  from "6.prems" have "p \<in> set (rmatch r1 s g) \<or> p \<in> set (rmatch r2 s g)"
    by (simp add: rmatch.simps(6))
  then show ?case using "6.IH" by blast
next
  case (7 r s g)
  let ?round = "\<lambda>q. if length (fst q) < length s then rmatch (Star r) (fst q) (snd q) else []"
  have "p \<in> set (concat (map ?round (rmatch r s g)) @ [(s, g)])"
    using "7.prems" by (subst (asm) rmatch.simps(7)) assumption
  then have "p = (s, g) \<or> (\<exists>q \<in> set (rmatch r s g). p \<in> set (?round q))"
    by auto
  then show ?case
  proof
    assume "p = (s, g)"
    then show ?thesis by simp
  next
    assume "\<exists>q \<in> set (rmatch r s g). p \<in> set (?round q)"
    then obtain q where q: "q \<in> set (rmatch r s g)" and pq: "p \<in> set (?round q)"
      by blast
    have lt: "length (fst q) < length s"
      using pq by (cases "length (fst q) < length s") simp_all
    then have "p \<in> set (rmatch (Star r) (fst q) (snd q))"
      using pq by simp
    then have "length (fst p) \<le> length (fst q)"
      using "7.IH"(2) [OF q lt] by simp
    then show ?thesis using lt by simp
  qed
next
  case (8 n r s g)
  from "8.prems" obtain q where "q \<in> set (rmatch r s g)" "fst p = fst q"
    by (auto simp: rmatch.simps(8))
  then show ?case using "8.IH" by simp
qed

lemma match_at_bounds:
  assumes "match_at r s adv = Some (m, g)"
  shows "m \<le> length s" and "adv \<Longrightarrow> 0 < m"
proof -
  let ?ok = "\<lambda>p. length (fst p) < length s \<or> \<not> adv"
  from assms obtain p ps where f: "filter ?ok (rmatch r s []) = p # ps"
    and m: "m = length s - length (fst p)"
    by (auto simp: match_at_def split: list.splits)
  have "p \<in> set (filter ?ok (rmatch r s []))" using f by simp
  then have "?ok p" by simp
  then show "m \<le> length s" and "adv \<Longrightarrow> 0 < m" using m by auto
qed

lemma search_bounds:
  "search r s adv = Some (k, m, g) \<Longrightarrow> k + m \<le> length s \<and> (adv \<longrightarrow> 0 < k + m)"
proof (induction s arbitrary: adv k)
  case Nil
  then show ?case
    by (auto split: option.splits dest: match_at_bounds)
next
  case (Cons c cs)
  show ?case
  proof (cases "match_at r (c # cs) adv")
    case (Some a)
    then show ?thesis using Cons.prems
      by (cases a) (auto dest: match_at_bounds)
  next
    case None
    then obtain k' where "search r cs False = Some (k', m, g)" "k = Suc k'"
      using Cons.prems by (auto split: option.splits)
    then show ?thesis using Cons.IH [of False k'] by simp
  qed
qed

lemma findall_from_unfold:
  "findall_from r ng s adv =
     (case search r s adv of
        None \<Rightarrow> []
      | Some (k, m, g) \<Rightarrow>
          findall_item ng (take m (drop k s)) g # findall_from r ng (drop (k + m) s) (m = 0))"
proof (cases "search r s adv")
  case None
  then show ?thesis by (subst findall_from.simps) simp
next
  case (Some a)
  obtain k m g where a: "a = (k, m, g)" by (cases a)
  have "k + m \<le> length s \<and> (adv \<longrightarrow> 0 < k + m)"
    using search_bounds [of r s adv k m g] Some a by simp
  then show ?thesis using Some a
    by (subst findall_from.simps) auto
qed





text \<open>
  Claim C2, at the pattern of the specification and at patterns with groups. Without a
  group in the pattern \<open>search_text\<close> returns the matched substrings. With one group it
  returns the text of the group, not the matched substring: \<open>1\<close> and \<open>2\<close> where the
  matches are \<open>print(1)\<close> and \<open>print(2)\<close>. With two groups it returns tuples, not strings.
\<close>

theorem search_text_returns_groups:
  "search_text ''print(1) print(2)'' (''print'' @ [backslash] @ ''([^)]+'' @ [backslash] @ '')'')
     = Some (Inr [Str ''print(1)'', Str ''print(2)'']) \<and>
   search_text ''print(1) print(2)'' (''print'' @ [backslash] @ ''(([^)]+)'' @ [backslash] @ '')'')
     = Some (Inr [Str ''1'', Str ''2'']) \<and>
   search_text ''ab'' ''(a)(b)'' = Some (Inr [Tuple [''a'', ''b'']])"
proof (intro conjI)
  show "search_text ''print(1) print(2)''
        (''print'' @ [backslash] @ ''([^)]+'' @ [backslash] @ '')'')
      = Some (Inr [Str ''print(1)'', Str ''print(2)''])"
    by code_simp
  show "search_text ''print(1) print(2)''
        (''print'' @ [backslash] @ ''(([^)]+)'' @ [backslash] @ '')'')
      = Some (Inr [Str ''1'', Str ''2''])"
    by code_simp
  show "search_text ''ab'' ''(a)(b)'' = Some (Inr [Tuple [''a'', ''b'']])"
    by code_simp
qed

text \<open>
  Claim C3, at the default directories. The backup of \<open>a.txt\<close> is named
  \<open>a_20240102_030405.bak\<close> and holds the text of \<open>a.txt\<close>, but it is written below the
  output directory, and \<open>read_text_file\<close>, which reads below the input directory, does
  not find it.
\<close>

theorem create_backup_not_readable:
  "TextProcessor_init ''data/input'' ''data/output'' example_files
     = Inr (default_processor, example_files(''data/output'' \<mapsto> Dir)) \<and>
   create_backup default_processor example_now (example_files(''data/output'' \<mapsto> Dir)) ''a.txt''
     = Inr (''a_20240102_030405.bak'',
            example_files(''data/output'' \<mapsto> Dir,
              ''data/output/a_20240102_030405.bak'' \<mapsto> File ''alpha'')) \<and>
   read_text_file default_processor
       (example_files(''data/output'' \<mapsto> Dir,
          ''data/output/a_20240102_030405.bak'' \<mapsto> File ''alpha''))
       ''a_20240102_030405.bak''
     = Inl FileNotFoundError"
  using init_example backup_example read_backup [of "''alpha''"] by (intro conjI)

text \<open>
  Claim C4, at the default directories. The merged file has the two sections in the
  order given, each a header line, the text of the file and a line end, with an empty
  line between them; it is written below the output directory, and \<open>read_text_file\<close>
  does not find it.
\<close>

theorem merge_text_files_not_readable:
  "TextProcessor_init ''data/input'' ''data/output'' example_files
     = Inr (default_processor, example_files(''data/output'' \<mapsto> Dir)) \<and>
   merge_text_files default_processor (example_files(''data/output'' \<mapsto> Dir))
       [''a.txt'', ''b.txt''] ''m.txt''
     = Inr (example_files(''data/output'' \<mapsto> Dir,
              ''data/output/m.txt'' \<mapsto>
                File (''--- a.txt ---'' @ [nl] @ ''alpha'' @ [nl] @ [nl]
                      @ ''--- b.txt ---'' @ [nl] @ ''beta'' @ [nl]))) \<and>
   read_text_file default_processor
       (example_files(''data/output'' \<mapsto> Dir,
          ''data/output/m.txt'' \<mapsto>
            File (''--- a.txt ---'' @ [nl] @ ''alpha'' @ [nl] @ [nl]
                  @ ''--- b.txt ---'' @ [nl] @ ''beta'' @ [nl])))
       ''m.txt''
     = Inl FileNotFoundError"
  using init_example merge_example read_merged by (intro conjI)





end
